theory Spec2Isabelle
  imports Main "HOL-Library.Sublist"
begin

section \<open>pr\_delta: a shallow embedding of \<^verbatim>\<open>src/pr-delta/pr_delta.py\<close>\<close>

text \<open>
  Python strings are modelled as \<^typ>\<open>string\<close>, one \<^typ>\<open>char\<close> per code point, so the
  model covers the strings whose code points lie in U+0000..U+00FF and \<open>length\<close> is
  Python's \<open>len\<close> on them. Python's unbounded integers are \<^typ>\<open>int\<close>. A raised exception
  is the \<open>Inl\<close> of a sum.
\<close>

subsection \<open>Python string primitives used by the script\<close>

datatype py_error = ValueError string | KeyError string

text \<open>\<^verbatim>\<open>str.lower\<close> on one code point below 256: A-Z and the Latin-1 capitals
  U+00C0..U+00DE (the multiplication sign U+00D7 apart) move up by 32.\<close>

definition py_lower_char :: "char \<Rightarrow> char" where
  "py_lower_char c =
     (let n = (of_char c :: nat)
      in if (65 \<le> n \<and> n \<le> 90) \<or> (192 \<le> n \<and> n \<le> 222 \<and> n \<noteq> 215)
         then char_of (n + 32) else c)"

definition lower :: "string \<Rightarrow> string" where
  "lower s = map py_lower_char s"

text \<open>\<^verbatim>\<open>s.startswith(p)\<close>, \<^verbatim>\<open>s.endswith(p)\<close> and \<^verbatim>\<open>sub in s\<close>.\<close>

fun startswith :: "string \<Rightarrow> string \<Rightarrow> bool" where
  "startswith s [] = True"
| "startswith [] (p # ps) = False"
| "startswith (c # cs) (p # ps) = (c = p \<and> startswith cs ps)"

definition endswith :: "string \<Rightarrow> string \<Rightarrow> bool" where
  "endswith s p = startswith (rev s) (rev p)"

fun str_contains :: "string \<Rightarrow> string \<Rightarrow> bool" where
  "str_contains [] sub = (sub = [])"
| "str_contains (c # cs) sub = (startswith (c # cs) sub \<or> str_contains cs sub)"

text \<open>\<^verbatim>\<open>s.strip('/')\<close> removes every leading and every trailing occurrence of the character.\<close>

definition strip :: "char \<Rightarrow> string \<Rightarrow> string" where
  "strip c s = rev (dropWhile (\<lambda>x. x = c) (rev (dropWhile (\<lambda>x. x = c) s)))"

text \<open>\<^verbatim>\<open>s.split('/')\<close>: the pieces between the separators; never the empty list.\<close>

fun split :: "char \<Rightarrow> string \<Rightarrow> string list" where
  "split sep [] = [[]]"
| "split sep (c # cs) =
     (if c = sep then [] # split sep cs
      else (case split sep cs of [] \<Rightarrow> [[c]] | piece # pieces \<Rightarrow> (c # piece) # pieces))"

text \<open>\<^verbatim>\<open>sep.join(parts)\<close>.\<close>

fun join :: "string \<Rightarrow> string list \<Rightarrow> string" where
  "join sep [] = []"
| "join sep [p] = p"
| "join sep (p # q # ps) = p @ sep @ join sep (q # ps)"

text \<open>\<^verbatim>\<open>xs.index(x)\<close>: the first position of \<open>x\<close>; Python raises when there is none.\<close>

fun index :: "'a list \<Rightarrow> 'a \<Rightarrow> nat option" where
  "index [] x = None"
| "index (y # ys) x =
     (if y = x then Some 0 else (case index ys x of None \<Rightarrow> None | Some i \<Rightarrow> Some (Suc i)))"

text \<open>\<^verbatim>\<open>s.ljust(width)\<close> pads with spaces on the right; a string already that long is
  returned as it is.\<close>

definition ljust :: "string \<Rightarrow> int \<Rightarrow> string" where
  "ljust s width = s @ replicate (nat (width - int (length s))) (CHR '' '')"

text \<open>The slices \<^verbatim>\<open>s[:k]\<close> and \<^verbatim>\<open>s[k:]\<close> for any integer \<open>k\<close>: a negative bound counts
  from the end, and every bound is clamped to the string.\<close>

definition slice_to :: "string \<Rightarrow> int \<Rightarrow> string" where
  "slice_to s k = (if 0 \<le> k then take (nat k) s else take (nat (int (length s) + k)) s)"

definition slice_from :: "string \<Rightarrow> int \<Rightarrow> string" where
  "slice_from s k = (if 0 \<le> k then drop (nat k) s else drop (nat (int (length s) + k)) s)"

text \<open>\<^verbatim>\<open>str.splitlines()\<close>: a line ends at LF, CR, CR LF, VT, FF, FS, GS, RS or NEL
  (the boundaries below U+0100); the terminators are dropped and a terminator at the very
  end opens no further line. The first argument is the line read so far.\<close>

definition is_linebreak :: "char \<Rightarrow> bool" where
  "is_linebreak c = ((of_char c :: nat) \<in> {10, 11, 12, 13, 28, 29, 30, 133})"

fun splitlines_from :: "string \<Rightarrow> string \<Rightarrow> string list" where
  "splitlines_from cur [] = (if cur = [] then [] else [cur])"
| "splitlines_from cur [c] =
     (if is_linebreak c then [cur] else [cur @ [c]])"
| "splitlines_from cur (c # d # cs) =
     (if (of_char c :: nat) = 13 \<and> (of_char d :: nat) = 10 then cur # splitlines_from [] cs
      else if is_linebreak c then cur # splitlines_from [] (d # cs)
      else splitlines_from (cur @ [c]) (d # cs))"

definition splitlines :: "string \<Rightarrow> string list" where
  "splitlines s = splitlines_from [] s"

subsection \<open>The regular expressions of \<^verbatim>\<open>EXCLUDE_PATTERNS\<close>\<close>

text \<open>
  The five patterns use literals, \<^verbatim>\<open>.\<close>, \<^verbatim>\<open>*\<close>, \<^verbatim>\<open>?\<close> and a one-character class, all
  compiled with \<^verbatim>\<open>re.IGNORECASE\<close>. \<open>Lit c\<close> is a literal of such a pattern: it matches
  the characters that agree with \<open>c\<close> up to case. \<open>Dot\<close> matches any character but the
  line feed. \<open>Zero\<close> (no match), \<open>One\<close> (the empty match) and \<open>Alt\<close> close the syntax under
  derivatives.
\<close>

datatype rx = Zero | One | Lit char | Dot | Alt rx rx | Seq rx rx | Star rx

definition Opt :: "rx \<Rightarrow> rx" where
  "Opt r = Alt r One"

fun Str :: "string \<Rightarrow> rx" where
  "Str [] = One"
| "Str (c # cs) = Seq (Lit c) (Str cs)"

definition lit_matches :: "char \<Rightarrow> char \<Rightarrow> bool" where
  "lit_matches c d = (py_lower_char d = py_lower_char c)"

definition dot_matches :: "char \<Rightarrow> bool" where
  "dot_matches d = ((of_char d :: nat) \<noteq> 10)"

fun nullable :: "rx \<Rightarrow> bool" where
  "nullable Zero = False"
| "nullable One = True"
| "nullable (Lit c) = False"
| "nullable Dot = False"
| "nullable (Alt r s) = (nullable r \<or> nullable s)"
| "nullable (Seq r s) = (nullable r \<and> nullable s)"
| "nullable (Star r) = True"

fun deriv :: "char \<Rightarrow> rx \<Rightarrow> rx" where
  "deriv d Zero = Zero"
| "deriv d One = Zero"
| "deriv d (Lit c) = (if lit_matches c d then One else Zero)"
| "deriv d Dot = (if dot_matches d then One else Zero)"
| "deriv d (Alt r s) = Alt (deriv d r) (deriv d s)"
| "deriv d (Seq r s) =
     (if nullable r then Alt (Seq (deriv d r) s) (deriv d s) else Seq (deriv d r) s)"
| "deriv d (Star r) = Seq (deriv d r) (Star r)"

text \<open>\<open>match_here r s\<close>: the pattern matches some prefix of \<open>s\<close> (\<^verbatim>\<open>p.match(s)\<close> is not
  None). \<open>search r s\<close>: it matches at some position of \<open>s\<close> (\<^verbatim>\<open>p.search(s)\<close> is not None).\<close>

fun match_here :: "rx \<Rightarrow> string \<Rightarrow> bool" where
  "match_here r [] = nullable r"
| "match_here r (c # cs) = (nullable r \<or> match_here (deriv c r) cs)"

fun search :: "rx \<Rightarrow> string \<Rightarrow> bool" where
  "search r [] = match_here r []"
| "search r (c # cs) = (match_here r (c # cs) \<or> search r cs)"

text \<open>The words a pattern matches in full, as the reference for the matcher.\<close>

definition conc :: "string set \<Rightarrow> string set \<Rightarrow> string set" where
  "conc A B = {u @ v | u v. u \<in> A \<and> v \<in> B}"

inductive_set star :: "string set \<Rightarrow> string set" for A :: "string set" where
  star_empty: "[] \<in> star A"
| star_step: "u \<in> A \<Longrightarrow> v \<in> star A \<Longrightarrow> u @ v \<in> star A"

fun lang :: "rx \<Rightarrow> string set" where
  "lang Zero = {}"
| "lang One = {[]}"
| "lang (Lit c) = {[d] | d. lit_matches c d}"
| "lang Dot = {[d] | d. dot_matches d}"
| "lang (Alt r s) = lang r \<union> lang s"
| "lang (Seq r s) = conc (lang r) (lang s)"
| "lang (Star r) = star (lang r)"

subsection \<open>Classification of paths\<close>

text \<open>
  \<^verbatim>\<open>
  EXCLUDE_PATTERNS = [
      re.compile(r'.*/test[s]?/.*', re.IGNORECASE),
      re.compile(r'.*test.*', re.IGNORECASE),
      re.compile(r'.*spec.*', re.IGNORECASE),
      re.compile(r'.*_test\..*', re.IGNORECASE),
      re.compile(r'.*_spec\..*', re.IGNORECASE),
  ]
  def is_test_file(path):
      return any(p.search(path) for p in EXCLUDE_PATTERNS)
  \<close>
\<close>

definition EXCLUDE_PATTERNS :: "rx list" where
  "EXCLUDE_PATTERNS =
     [Seq (Star Dot) (Seq (Str ''/test'') (Seq (Opt (Lit CHR ''s'')) (Seq (Lit CHR ''/'') (Star Dot)))),
      Seq (Star Dot) (Seq (Str ''test'') (Star Dot)),
      Seq (Star Dot) (Seq (Str ''spec'') (Star Dot)),
      Seq (Star Dot) (Seq (Str ''_test.'') (Star Dot)),
      Seq (Star Dot) (Seq (Str ''_spec.'') (Star Dot))]"

definition is_test_file :: "string \<Rightarrow> bool" where
  "is_test_file path = list_ex (\<lambda>p. search p path) EXCLUDE_PATTERNS"

definition CONFIG_EXTENSIONS :: "string list" where
  "CONFIG_EXTENSIONS =
     [''.yml'', ''.yaml'', ''.json'', ''.toml'', ''.xml'', ''.properties'', ''.conf'', ''.cfg'',
      ''.ini'']"

definition is_config_file :: "string \<Rightarrow> bool" where
  "is_config_file path = list_ex (\<lambda>e. endswith path e) CONFIG_EXTENSIONS"

subsection \<open>The code-review URL\<close>

text \<open>
  \<^verbatim>\<open>urlparse\<close> belongs to the standard library, so \<open>extract_pr_info\<close> takes it as a
  parameter: a function that fails or returns the network location and the path of the URL
  (the two attributes the script reads).
\<close>

record parse_result =
  netloc :: string
  url_path :: string

text \<open>
  \<^verbatim>\<open>
  def extract_pr_info(pr_url):
      parsed = urlparse(pr_url)
      host = parsed.netloc.lower()
      path_parts = parsed.path.strip('/').split('/')
      if 'github.com' in host:
          if len(path_parts) < 4 or path_parts[-2] != 'pull':
              raise ValueError("Invalid GitHub PR URL")
          owner, repo, _, pr_number = path_parts[:4]
          return 'github', owner, repo, pr_number
      elif 'gitlab.com' in host:
          if 'merge_requests' not in path_parts:
              raise ValueError("Invalid GitLab MR URL")
          mr_idx = path_parts.index('merge_requests')
          if mr_idx < 2 or mr_idx+1 >= len(path_parts):
              raise ValueError("Invalid GitLab MR URL")
          repo = path_parts[mr_idx-2]
          owner = path_parts[mr_idx-3] if mr_idx-3 >= 0 else ''
          mr_number = path_parts[mr_idx+1]
          if mr_idx-3 > 0:
              owner = '/'.join(path_parts[:mr_idx-2])
          return 'gitlab', owner, repo, mr_number
      else:
          raise ValueError("Unsupported URL: Only GitHub and GitLab are supported.")
  \<close>
  The membership test and \<^verbatim>\<open>index\<close> are one lookup here: \<open>index\<close> is \<open>None\<close> exactly when
  the segment is absent. \<^verbatim>\<open>path_parts[-2]\<close> is read only when there are four segments or
  more, where it is the element at \<open>length path_parts - 2\<close>.
\<close>

definition extract_pr_info ::
  "(string \<Rightarrow> py_error + parse_result) \<Rightarrow> string \<Rightarrow> py_error + (string \<times> string \<times> string \<times> string)"
where
  "extract_pr_info urlparse pr_url =
     (case urlparse pr_url of
        Inl e \<Rightarrow> Inl e
      | Inr parsed \<Rightarrow>
          let host = lower (netloc parsed);
              path_parts = split CHR ''/'' (strip CHR ''/'' (url_path parsed))
          in if str_contains host ''github.com'' then
               (if length path_parts < 4 \<or> path_parts ! (length path_parts - 2) \<noteq> ''pull''
                then Inl (ValueError ''Invalid GitHub PR URL'')
                else (case take 4 path_parts of
                        [owner, repo, _, pr_number] \<Rightarrow> Inr (''github'', owner, repo, pr_number)
                      | _ \<Rightarrow> Inl (ValueError ''not enough values to unpack'')))
             else if str_contains host ''gitlab.com'' then
               (case index path_parts ''merge_requests'' of
                  None \<Rightarrow> Inl (ValueError ''Invalid GitLab MR URL'')
                | Some mr_idx \<Rightarrow>
                    if mr_idx < 2 \<or> mr_idx + 1 \<ge> length path_parts
                    then Inl (ValueError ''Invalid GitLab MR URL'')
                    else
                      let repo = path_parts ! (mr_idx - 2);
                          owner = (if int mr_idx - 3 \<ge> 0 then path_parts ! (mr_idx - 3) else []);
                          mr_number = path_parts ! (mr_idx + 1);
                          owner = (if int mr_idx - 3 > 0
                                   then join ''/'' (take (mr_idx - 2) path_parts) else owner)
                      in Inr (''gitlab'', owner, repo, mr_number))
             else Inl (ValueError ''Unsupported URL: Only GitHub and GitLab are supported.''))"

text \<open>For the statements below: a \<^verbatim>\<open>urlparse\<close> that answers a given result (the concrete
  URLs are paired with the network location and path the library reads off them), and the
  data model's ``string of digits''.\<close>

definition parses_to :: "parse_result \<Rightarrow> string \<Rightarrow> py_error + parse_result" where
  "parses_to parsed pr_url = Inr parsed"

definition isdigit :: "string \<Rightarrow> bool" where
  "isdigit s = (s \<noteq> [] \<and> list_all (\<lambda>c. c \<in> set ''0123456789'') s)"

subsection \<open>Normalising GitLab's changes\<close>

text \<open>
  One entry of the \<^verbatim>\<open>changes\<close> array of GitLab's answer: \<^verbatim>\<open>f["new_path"]\<close> raises when
  the key is missing, \<^verbatim>\<open>f.get('diff', '')\<close> does not. A changed file of either platform has
  the four keys the summary reads.
\<close>

record gitlab_change =
  new_path :: "string option"
  diff :: "string option"

record changed_file =
  filename :: string
  additions :: int
  deletions :: int
  changes :: int

text \<open>
  \<^verbatim>\<open>
  added = deleted = 0
  for line in f.get('diff', '').splitlines():
      if line.startswith('+') and not line.startswith('+++'):
          added += 1
      elif line.startswith('-') and not line.startswith('---'):
          deleted += 1
  \<close>
\<close>

fun count_lines :: "string list \<Rightarrow> int \<times> int \<Rightarrow> int \<times> int" where
  "count_lines [] (added, deleted) = (added, deleted)"
| "count_lines (line # rest) (added, deleted) =
     (if startswith line ''+'' \<and> \<not> startswith line ''+++'' then count_lines rest (added + 1, deleted)
      else if startswith line ''-'' \<and> \<not> startswith line ''---'' then count_lines rest (added, deleted + 1)
      else count_lines rest (added, deleted))"

definition normalize_change :: "gitlab_change \<Rightarrow> py_error + changed_file" where
  "normalize_change f =
     (let (added, deleted) =
            count_lines (splitlines (case diff f of None \<Rightarrow> [] | Some d \<Rightarrow> d)) (0, 0)
      in case new_path f of
           None \<Rightarrow> Inl (KeyError ''new_path'')
         | Some p \<Rightarrow>
             Inr \<lparr>filename = p, additions = added, deletions = deleted,
                  changes = added + deleted\<rparr>)"

text \<open>The loop of \<^verbatim>\<open>fetch_mr_files_gitlab\<close> over the decoded \<^verbatim>\<open>changes\<close>, appending to
  \<^verbatim>\<open>file_list\<close>; an exception ends it.\<close>

fun gitlab_file_list :: "gitlab_change list \<Rightarrow> changed_file list \<Rightarrow> py_error + changed_file list" where
  "gitlab_file_list [] file_list = Inr file_list"
| "gitlab_file_list (f # files) file_list =
     (case normalize_change f of
        Inl e \<Rightarrow> Inl e
      | Inr entry \<Rightarrow> gitlab_file_list files (file_list @ [entry]))"

subsection \<open>The summary\<close>

text \<open>The entries of \<^verbatim>\<open>file_changes\<close>: the keys \<^verbatim>\<open>path\<close>, \<^verbatim>\<open>additions\<close>, \<^verbatim>\<open>deletions\<close>,
  \<^verbatim>\<open>changes\<close>, \<^verbatim>\<open>net_change\<close> and \<^verbatim>\<open>is_config\<close>.\<close>

record file_change =
  fc_path :: string
  fc_additions :: int
  fc_deletions :: int
  fc_changes :: int
  fc_net_change :: int
  fc_is_config :: bool

text \<open>
  \<^verbatim>\<open>
  def summarize_files(files, include_tests=False):
      total_added = 0; total_deleted = 0; total_changes = 0
      file_changes = []
      for file in files:
          path = file["filename"]
          if not include_tests and is_test_file(path):
              continue
          ...
          total_added += additions; total_deleted += deletions; total_changes += changes
          file_changes.append({...})
      return total_added, total_deleted, total_changes, file_changes
  \<close>
  The loop carries the four variables it updates.
\<close>

fun summarize_loop ::
  "bool \<Rightarrow> changed_file list \<Rightarrow> int \<times> int \<times> int \<times> file_change list
     \<Rightarrow> int \<times> int \<times> int \<times> file_change list"
where
  "summarize_loop include_tests [] (total_added, total_deleted, total_changes, file_changes) =
     (total_added, total_deleted, total_changes, file_changes)"
| "summarize_loop include_tests (file # files)
       (total_added, total_deleted, total_changes, file_changes) =
     (if \<not> include_tests \<and> is_test_file (filename file)
      then summarize_loop include_tests files
             (total_added, total_deleted, total_changes, file_changes)
      else summarize_loop include_tests files
             (total_added + additions file,
              total_deleted + deletions file,
              total_changes + changes file,
              file_changes @
                [\<lparr>fc_path = filename file,
                  fc_additions = additions file,
                  fc_deletions = deletions file,
                  fc_changes = changes file,
                  fc_net_change = additions file - deletions file,
                  fc_is_config = is_config_file (filename file)\<rparr>]))"

definition summarize_files :: "changed_file list \<Rightarrow> bool \<Rightarrow> int \<times> int \<times> int \<times> file_change list" where
  "summarize_files files include_tests = summarize_loop include_tests files (0, 0, 0, [])"

text \<open>For the statements below: the entry the loop appends for a file, and the changed
  file an entry was made from (the entry without its two derived keys, \<^verbatim>\<open>path\<close> read as
  \<^verbatim>\<open>filename\<close>).\<close>

definition entry_of :: "changed_file \<Rightarrow> file_change" where
  "entry_of file =
     \<lparr>fc_path = filename file, fc_additions = additions file, fc_deletions = deletions file,
      fc_changes = changes file, fc_net_change = additions file - deletions file,
      fc_is_config = is_config_file (filename file)\<rparr>"

definition file_of :: "file_change \<Rightarrow> changed_file" where
  "file_of e =
     \<lparr>filename = fc_path e, additions = fc_additions e, deletions = fc_deletions e,
      changes = fc_changes e\<rparr>"

subsection \<open>The path column\<close>

text \<open>
  \<^verbatim>\<open>
  def truncate_middle(path, max_length=60):
      if len(path) <= max_length:
          return path.ljust(max_length)
      else:
          part_len = (max_length - 3) // 2  # account for "..."
          return f"{path[:part_len]}...{path[-part_len:]}".ljust(max_length)
  \<close>
\<close>

definition truncate_middle :: "string \<Rightarrow> int \<Rightarrow> string" where
  "truncate_middle path max_length =
     (if int (length path) \<le> max_length then ljust path max_length
      else
        let part_len = (max_length - 3) div 2
        in ljust (slice_to path part_len @ ''...'' @ slice_from path (- part_len)) max_length)"

text \<open>The first field of a row of the file table (\<^verbatim>\<open>main\<close>): with \<^verbatim>\<open>--truncate-paths\<close> it is
  \<^verbatim>\<open>f"{truncate_middle(f['path']):60}"\<close>, otherwise \<^verbatim>\<open>f"{f['path'][-60:]:<60}"\<close>. Both format
  specifications left-align a string in a field of width 60.\<close>

definition path_field :: "bool \<Rightarrow> string \<Rightarrow> string" where
  "path_field truncate_paths p =
     (if truncate_paths then ljust (truncate_middle p 60) 60
      else ljust (slice_from p (- 60)) 60)"

section \<open>The matcher against the words of a pattern\<close>

lemma nullable_iff: "nullable r \<longleftrightarrow> [] \<in> lang r"
  by (induction r) (auto simp: conc_def intro: star.intros)

lemma star_cons:
  "x \<in> star A \<Longrightarrow> x = c # w \<Longrightarrow> \<exists>u v. w = u @ v \<and> c # u \<in> A \<and> v \<in> star A"
proof (induction arbitrary: w rule: star.induct)
  case star_empty
  then show ?case by simp
next
  case (star_step u v)
  show ?case
  proof (cases u)
    case Nil
    with star_step show ?thesis by simp
  next
    case (Cons a u')
    with star_step.prems have "a = c" "w = u' @ v" by simp_all
    with Cons star_step.hyps show ?thesis by blast
  qed
qed

lemma star_cons_iff:
  "c # w \<in> star A \<longleftrightarrow> (\<exists>u v. w = u @ v \<and> c # u \<in> A \<and> v \<in> star A)"
proof
  assume "c # w \<in> star A"
  then show "\<exists>u v. w = u @ v \<and> c # u \<in> A \<and> v \<in> star A" by (rule star_cons) simp
next
  assume "\<exists>u v. w = u @ v \<and> c # u \<in> A \<and> v \<in> star A"
  then obtain u v where "w = u @ v" "c # u \<in> A" "v \<in> star A" by blast
  then show "c # w \<in> star A" using star_step [of "c # u" A v] by simp
qed

lemma conc_cons_iff:
  "c # w \<in> conc A B \<longleftrightarrow> ([] \<in> A \<and> c # w \<in> B) \<or> (\<exists>u v. w = u @ v \<and> c # u \<in> A \<and> v \<in> B)"
  unfolding conc_def by (auto simp: Cons_eq_append_conv)

lemma conc_iff: "w \<in> conc A B \<longleftrightarrow> (\<exists>u v. w = u @ v \<and> u \<in> A \<and> v \<in> B)"
  unfolding conc_def by auto

lemma lang_deriv: "w \<in> lang (deriv c r) \<longleftrightarrow> c # w \<in> lang r"
proof (induction r arbitrary: w)
  case (Seq r s)
  have "w \<in> conc (lang (deriv c r)) (lang s) \<longleftrightarrow>
        (\<exists>u v. w = u @ v \<and> c # u \<in> lang r \<and> v \<in> lang s)"
    by (simp add: conc_iff Seq)
  then show ?case
    by (auto simp: conc_cons_iff nullable_iff Seq)
next
  case (Star r)
  then show ?case
    by (simp add: star_cons_iff conc_iff)
qed auto

lemma match_here_iff: "match_here r s \<longleftrightarrow> (\<exists>u v. s = u @ v \<and> u \<in> lang r)"
proof (induction s arbitrary: r)
  case Nil
  then show ?case by (simp add: nullable_iff)
next
  case (Cons c cs)
  show ?case
  proof
    assume "match_here r (c # cs)"
    then consider "nullable r" | "match_here (deriv c r) cs" by auto
    then show "\<exists>u v. c # cs = u @ v \<and> u \<in> lang r"
    proof cases
      case 1
      then have "c # cs = [] @ (c # cs) \<and> [] \<in> lang r" by (simp add: nullable_iff)
      then show ?thesis by blast
    next
      case 2
      then obtain u v where "cs = u @ v" "u \<in> lang (deriv c r)" using Cons.IH by blast
      then have "c # cs = (c # u) @ v \<and> c # u \<in> lang r" by (simp add: lang_deriv)
      then show ?thesis by blast
    qed
  next
    assume "\<exists>u v. c # cs = u @ v \<and> u \<in> lang r"
    then obtain u v where uv: "c # cs = u @ v" "u \<in> lang r" by blast
    show "match_here r (c # cs)"
    proof (cases u)
      case Nil
      with uv have "nullable r" by (simp add: nullable_iff)
      then show ?thesis by simp
    next
      case (Cons a u')
      with uv have "cs = u' @ v" "u' \<in> lang (deriv c r)" by (simp_all add: lang_deriv)
      then have "match_here (deriv c r) cs" using Cons.IH by blast
      then show ?thesis by simp
    qed
  qed
qed

text \<open>\<open>search\<close> succeeds exactly when the pattern matches some substring in full.\<close>

lemma search_iff: "search r s \<longleftrightarrow> (\<exists>u v w. s = u @ v @ w \<and> v \<in> lang r)"
proof (induction s)
  case Nil
  then show ?case by (simp add: nullable_iff)
next
  case (Cons c cs)
  show ?case
  proof
    assume "search r (c # cs)"
    then consider "match_here r (c # cs)" | "search r cs" by auto
    then show "\<exists>u v w. c # cs = u @ v @ w \<and> v \<in> lang r"
    proof cases
      case 1
      then obtain v w where "c # cs = v @ w" "v \<in> lang r" by (auto simp: match_here_iff)
      then have "c # cs = [] @ v @ w \<and> v \<in> lang r" by simp
      then show ?thesis by blast
    next
      case 2
      then obtain u v w where "cs = u @ v @ w" "v \<in> lang r" using Cons.IH by blast
      then have "c # cs = (c # u) @ v @ w \<and> v \<in> lang r" by simp
      then show ?thesis by blast
    qed
  next
    assume "\<exists>u v w. c # cs = u @ v @ w \<and> v \<in> lang r"
    then obtain u v w where uvw: "c # cs = u @ v @ w" "v \<in> lang r" by blast
    show "search r (c # cs)"
    proof (cases u)
      case Nil
      with uvw have "match_here r (c # cs)" unfolding match_here_iff by auto
      then show ?thesis by simp
    next
      case (Cons a u')
      with uvw have "cs = u' @ v @ w" by simp
      with uvw(2) have "search r cs" using Cons.IH by blast
      then show ?thesis by simp
    qed
  qed
qed

lemma startswith_iff: "startswith s p \<longleftrightarrow> (\<exists>w. s = p @ w)"
  by (induction s p rule: startswith.induct) auto

lemma str_contains_iff: "str_contains s sub \<longleftrightarrow> (\<exists>u w. s = u @ sub @ w)"
proof (induction s)
  case Nil
  then show ?case by auto
next
  case (Cons c cs)
  show ?case
  proof
    assume "str_contains (c # cs) sub"
    then consider "startswith (c # cs) sub" | "str_contains cs sub" by auto
    then show "\<exists>u w. c # cs = u @ sub @ w"
    proof cases
      case 1
      then obtain w where "c # cs = [] @ sub @ w" by (auto simp: startswith_iff)
      then show ?thesis by blast
    next
      case 2
      then obtain u w where "cs = u @ sub @ w" using Cons.IH by blast
      then have "c # cs = (c # u) @ sub @ w" by simp
      then show ?thesis by blast
    qed
  next
    assume "\<exists>u w. c # cs = u @ sub @ w"
    then obtain u w where uw: "c # cs = u @ sub @ w" by blast
    show "str_contains (c # cs) sub"
    proof (cases u)
      case Nil
      with uw have "startswith (c # cs) sub" by (auto simp: startswith_iff)
      then show ?thesis by simp
    next
      case (Cons a u')
      with uw have "cs = u' @ sub @ w" by simp
      then have "str_contains cs sub" using Cons.IH by blast
      then show ?thesis by simp
    qed
  qed
qed

lemma lang_Str: "x \<in> lang (Str w) \<longleftrightarrow> lower x = lower w"
proof (induction w arbitrary: x)
  case Nil
  then show ?case by (simp add: lower_def)
next
  case (Cons c cs)
  have "x \<in> lang (Str (c # cs)) \<longleftrightarrow>
        (\<exists>d v. x = d # v \<and> lit_matches c d \<and> v \<in> lang (Str cs))"
  proof
    assume "x \<in> lang (Str (c # cs))"
    then obtain u v where "x = u @ v" "u \<in> lang (Lit c)" "v \<in> lang (Str cs)"
      by (auto simp: conc_iff)
    then show "\<exists>d v. x = d # v \<and> lit_matches c d \<and> v \<in> lang (Str cs)" by auto
  next
    assume "\<exists>d v. x = d # v \<and> lit_matches c d \<and> v \<in> lang (Str cs)"
    then obtain d v where "x = d # v" "lit_matches c d" "v \<in> lang (Str cs)" by blast
    then have "x = [d] @ v \<and> [d] \<in> lang (Lit c) \<and> v \<in> lang (Str cs)" by simp
    then show "x \<in> lang (Str (c # cs))" unfolding Str.simps lang.simps(6) conc_iff by blast
  qed
  then show ?case
    by (cases x) (auto simp: Cons lower_def lit_matches_def)
qed

text \<open>Searching for a literal under \<^verbatim>\<open>IGNORECASE\<close> is a substring test on the lowered
  strings.\<close>

lemma search_Str: "search (Str w) s \<longleftrightarrow> str_contains (lower s) (lower w)"
proof
  assume "search (Str w) s"
  then obtain u v t where "s = u @ v @ t" "lower v = lower w"
    by (auto simp: search_iff lang_Str)
  then have "lower s = lower u @ lower w @ lower t" by (simp add: lower_def)
  then show "str_contains (lower s) (lower w)" unfolding str_contains_iff by blast
next
  assume "str_contains (lower s) (lower w)"
  then obtain a b where "map py_lower_char s = a @ lower w @ b"
    unfolding str_contains_iff lower_def by blast
  then obtain u r where ur: "s = u @ r" "map py_lower_char r = lower w @ b"
    by (metis map_eq_append_conv)
  then obtain v t where "r = v @ t" "map py_lower_char v = lower w"
    by (metis map_eq_append_conv)
  with ur(1) have "s = u @ v @ t" "map py_lower_char v = lower w" by simp_all
  then show "search (Str w) s" unfolding search_iff lang_Str lower_def by blast
qed

lemma search_Seq_left: "search (Seq a b) s \<Longrightarrow> search a s"
proof -
  assume "search (Seq a b) s"
  then obtain u x y t where "s = u @ (x @ y) @ t" "x \<in> lang a"
    by (auto simp: search_iff conc_iff)
  then have "s = u @ x @ (y @ t) \<and> x \<in> lang a" by simp
  then show ?thesis unfolding search_iff by blast
qed

lemma search_Seq_right: "search (Seq a b) s \<Longrightarrow> search b s"
proof -
  assume "search (Seq a b) s"
  then obtain u x y t where "s = u @ (x @ y) @ t" "y \<in> lang b"
    by (auto simp: search_iff conc_iff)
  then have "s = (u @ x) @ y @ t \<and> y \<in> lang b" by simp
  then show ?thesis unfolding search_iff by blast
qed

text \<open>A leading and a trailing \<^verbatim>\<open>.*\<close> change nothing for \<open>search\<close>.\<close>

lemma search_unanchored: "search (Seq (Star Dot) (Seq r (Star Dot))) s \<longleftrightarrow> search r s"
proof
  assume "search (Seq (Star Dot) (Seq r (Star Dot))) s"
  then show "search r s" by (blast dest: search_Seq_right search_Seq_left)
next
  assume "search r s"
  then obtain u v t where uvt: "s = u @ v @ t" "v \<in> lang r" unfolding search_iff by blast
  have "[] @ (v @ []) \<in> lang (Seq (Star Dot) (Seq r (Star Dot)))"
    unfolding lang.simps conc_iff using uvt(2) star_empty by blast
  with uvt(1) show "search (Seq (Star Dot) (Seq r (Star Dot))) s"
    unfolding search_iff by (metis append_Nil append_Nil2)
qed

lemma str_contains_mono: "str_contains s (a @ sub @ b) \<Longrightarrow> str_contains s sub"
proof -
  assume "str_contains s (a @ sub @ b)"
  then obtain u w where "s = u @ (a @ sub @ b) @ w" unfolding str_contains_iff by blast
  then have "s = (u @ a) @ sub @ (b @ w)" by simp
  then show ?thesis unfolding str_contains_iff by blast
qed

lemma lower_literals:
  "lower ''test'' = ''test''" "lower ''spec'' = ''spec''"
  "lower ''/test'' = ''/test''" "lower ''_test.'' = ''_test.''" "lower ''_spec.'' = ''_spec.''"
  by code_simp+

text \<open>The five patterns together: a path is a test file exactly when, lowered, it contains
  \<^verbatim>\<open>test\<close> or \<^verbatim>\<open>spec\<close>; the second and the third pattern subsume the others.\<close>

lemma is_test_file_iff:
  "is_test_file path \<longleftrightarrow>
     str_contains (lower path) ''test'' \<or> str_contains (lower path) ''spec''"
proof -
  let ?t = "str_contains (lower path) ''test''" and ?s = "str_contains (lower path) ''spec''"
  have p2: "search (Seq (Star Dot) (Seq (Str ''test'') (Star Dot))) path \<longleftrightarrow> ?t"
    by (simp only: search_unanchored search_Str lower_literals)
  have p3: "search (Seq (Star Dot) (Seq (Str ''spec'') (Star Dot))) path \<longleftrightarrow> ?s"
    by (simp only: search_unanchored search_Str lower_literals)
  have p1: "search (Seq (Star Dot) (Seq (Str ''/test'')
      (Seq (Opt (Lit CHR ''s'')) (Seq (Lit CHR ''/'') (Star Dot))))) path \<Longrightarrow> ?t"
  proof -
    assume "search (Seq (Star Dot) (Seq (Str ''/test'')
      (Seq (Opt (Lit CHR ''s'')) (Seq (Lit CHR ''/'') (Star Dot))))) path"
    then have "search (Str ''/test'') path" by (blast dest: search_Seq_right search_Seq_left)
    then have "str_contains (lower path) (''/'' @ ''test'' @ [])"
      by (simp only: search_Str lower_literals) simp
    then show ?t by (rule str_contains_mono)
  qed
  have p4: "search (Seq (Star Dot) (Seq (Str ''_test.'') (Star Dot))) path \<Longrightarrow> ?t"
  proof -
    assume "search (Seq (Star Dot) (Seq (Str ''_test.'') (Star Dot))) path"
    then have "str_contains (lower path) (''_'' @ ''test'' @ ''.'')"
      by (simp only: search_unanchored search_Str lower_literals) simp
    then show ?t by (rule str_contains_mono)
  qed
  have p5: "search (Seq (Star Dot) (Seq (Str ''_spec.'') (Star Dot))) path \<Longrightarrow> ?s"
  proof -
    assume "search (Seq (Star Dot) (Seq (Str ''_spec.'') (Star Dot))) path"
    then have "str_contains (lower path) (''_'' @ ''spec'' @ ''.'')"
      by (simp only: search_unanchored search_Str lower_literals) simp
    then show ?s by (rule str_contains_mono)
  qed
  show ?thesis
    unfolding is_test_file_def EXCLUDE_PATTERNS_def list_ex_Cons_iff list_ex_Nil_iff
    using p1 p2 p3 p4 p5 by blast
qed

section \<open>The summary\<close>

lemma summarize_loop_filter:
  "summarize_loop inc files (a, d, c, fcs) =
     (a + sum_list (map additions (filter (\<lambda>f. \<not> (\<not> inc \<and> is_test_file (filename f))) files)),
      d + sum_list (map deletions (filter (\<lambda>f. \<not> (\<not> inc \<and> is_test_file (filename f))) files)),
      c + sum_list (map changes (filter (\<lambda>f. \<not> (\<not> inc \<and> is_test_file (filename f))) files)),
      fcs @ map entry_of (filter (\<lambda>f. \<not> (\<not> inc \<and> is_test_file (filename f))) files))"
  by (induction files arbitrary: a d c fcs) (auto simp: entry_of_def)

lemma summarize_files_filter:
  "summarize_files files inc =
     (sum_list (map additions (filter (\<lambda>f. \<not> (\<not> inc \<and> is_test_file (filename f))) files)),
      sum_list (map deletions (filter (\<lambda>f. \<not> (\<not> inc \<and> is_test_file (filename f))) files)),
      sum_list (map changes (filter (\<lambda>f. \<not> (\<not> inc \<and> is_test_file (filename f))) files)),
      map entry_of (filter (\<lambda>f. \<not> (\<not> inc \<and> is_test_file (filename f))) files))"
  by (simp add: summarize_files_def summarize_loop_filter)

lemma entry_of_sel [simp]:
  "fc_path (entry_of f) = filename f"
  "fc_additions (entry_of f) = additions f"
  "fc_deletions (entry_of f) = deletions f"
  "fc_changes (entry_of f) = changes f"
  "fc_net_change (entry_of f) = additions f - deletions f"
  "fc_is_config (entry_of f) = is_config_file (filename f)"
  by (simp_all add: entry_of_def)

lemma file_of_entry_of [simp]: "file_of (entry_of f) = f"
  by (simp add: file_of_def)

lemma sum_list_split:
  "\<forall>f\<in>set fs. changes f = additions f + deletions f \<Longrightarrow>
   sum_list (map changes fs) = sum_list (map additions fs) + sum_list (map deletions fs)"
  by (induction fs) simp_all

lemma subseq_filter: "subseq (filter P xs) xs"
  by (induction xs) auto

lemma main_go_not_test: "\<not> is_test_file ''src/main.go''"
  unfolding is_test_file_iff by code_simp

lemma main_test_go_test: "is_test_file ''test/main_test.go''"
  unfolding is_test_file_iff by code_simp

lemma main_go_not_config: "\<not> is_config_file ''src/main.go''"
  by code_simp

lemma main_test_go_not_config: "\<not> is_config_file ''test/main_test.go''"
  by code_simp

lemma scenario_excluding_tests:
  "summarize_files
     [\<lparr>filename = ''src/main.go'', additions = 10, deletions = 2, changes = 12\<rparr>,
      \<lparr>filename = ''test/main_test.go'', additions = 5, deletions = 1, changes = 6\<rparr>] False =
   (10, 2, 12,
    [\<lparr>fc_path = ''src/main.go'', fc_additions = 10, fc_deletions = 2, fc_changes = 12,
      fc_net_change = 8, fc_is_config = False\<rparr>])"
  by (simp add: summarize_files_def main_go_not_test main_test_go_test main_go_not_config)

text \<open>
  Claim C1. Whatever the files and the flag, the total of changes that \<open>summarize_files\<close>
  returns is the sum of the \<^verbatim>\<open>changes\<close> of the entries it retained, and likewise the totals
  of additions and deletions; when the input files are ChangedFile records, that is when
  each has \<open>changes = additions + deletions\<close> (the invariant of the data model, which the
  summary does not re-check), the total of changes is the total added plus the total
  deleted.
\<close>

theorem summarize_totals_additive:
  "summarize_files files include_tests = (total_added, total_deleted, total_changes, file_changes)
   \<Longrightarrow> total_changes = sum_list (map fc_changes file_changes)
     \<and> total_added = sum_list (map fc_additions file_changes)
     \<and> total_deleted = sum_list (map fc_deletions file_changes)
     \<and> ((\<forall>file\<in>set files. changes file = additions file + deletions file)
          \<longrightarrow> total_changes = total_added + total_deleted)"
proof -
  let ?kept = "filter (\<lambda>f. \<not> (\<not> include_tests \<and> is_test_file (filename f))) files"
  assume "summarize_files files include_tests =
            (total_added, total_deleted, total_changes, file_changes)"
  then have eqs: "total_added = sum_list (map additions ?kept)"
    "total_deleted = sum_list (map deletions ?kept)"
    "total_changes = sum_list (map changes ?kept)"
    "file_changes = map entry_of ?kept"
    by (simp_all add: summarize_files_filter)
  have "(\<forall>file\<in>set files. changes file = additions file + deletions file)
          \<longrightarrow> total_changes = total_added + total_deleted"
  proof
    assume "\<forall>file\<in>set files. changes file = additions file + deletions file"
    then have "\<forall>file\<in>set ?kept. changes file = additions file + deletions file" by simp
    then show "total_changes = total_added + total_deleted"
      unfolding eqs(1-3) by (rule sum_list_split)
  qed
  moreover have "total_changes = sum_list (map fc_changes file_changes)"
    "total_added = sum_list (map fc_additions file_changes)"
    "total_deleted = sum_list (map fc_deletions file_changes)"
    by (simp_all add: eqs comp_def)
  ultimately show ?thesis by blast
qed

theorem summarize_totals_additive_witness:
  "summarize_files
     [\<lparr>filename = ''src/main.go'', additions = 10, deletions = 2, changes = 12\<rparr>,
      \<lparr>filename = ''test/main_test.go'', additions = 5, deletions = 1, changes = 6\<rparr>] False =
   (10, 2, 12,
    [\<lparr>fc_path = ''src/main.go'', fc_additions = 10, fc_deletions = 2, fc_changes = 12,
      fc_net_change = 8, fc_is_config = False\<rparr>])
   \<and> (12::int) = sum_list (map fc_changes
        [\<lparr>fc_path = ''src/main.go'', fc_additions = 10, fc_deletions = 2, fc_changes = 12,
          fc_net_change = 8, fc_is_config = False\<rparr>])
   \<and> (12::int) = 10 + 2"
proof -
  note run = scenario_excluding_tests
  show ?thesis using run summarize_totals_additive [OF run] by simp
qed

text \<open>
  Claim C2. With \<open>include_tests\<close> false, \<open>summarize_files\<close> keeps exactly the files whose
  filename \<open>is_test_file\<close> rejects: the totals are the sums over those files and the list has
  one entry for each of them, in order, so a dropped file adds nothing and is absent. With
  \<open>include_tests\<close> true every file is summed and gets its entry. For \<^verbatim>\<open>src/main.go\<close>
  (10, 2, 12) and \<^verbatim>\<open>test/main_test.go\<close> (5, 1, 6) without tests the totals are 10, 2
  and 12 and the list holds \<^verbatim>\<open>src/main.go\<close> alone. The heuristic itself, the five
  patterns searched without regard to case, amounts to: the path contains \<^verbatim>\<open>test\<close> or
  \<^verbatim>\<open>spec\<close>.
\<close>

theorem summarize_drops_test_files:
  "summarize_files files False =
     (sum_list (map additions (filter (\<lambda>file. \<not> is_test_file (filename file)) files)),
      sum_list (map deletions (filter (\<lambda>file. \<not> is_test_file (filename file)) files)),
      sum_list (map changes (filter (\<lambda>file. \<not> is_test_file (filename file)) files)),
      map entry_of (filter (\<lambda>file. \<not> is_test_file (filename file)) files))
   \<and> summarize_files files True =
     (sum_list (map additions files), sum_list (map deletions files),
      sum_list (map changes files), map entry_of files)
   \<and> summarize_files
     [\<lparr>filename = ''src/main.go'', additions = 10, deletions = 2, changes = 12\<rparr>,
      \<lparr>filename = ''test/main_test.go'', additions = 5, deletions = 1, changes = 6\<rparr>] False =
      (10, 2, 12,
       [\<lparr>fc_path = ''src/main.go'', fc_additions = 10, fc_deletions = 2, fc_changes = 12,
         fc_net_change = 8, fc_is_config = False\<rparr>])
   \<and> (is_test_file path \<longleftrightarrow>
        str_contains (lower path) ''test'' \<or> str_contains (lower path) ''spec'')"
proof -
  have "summarize_files files False =
     (sum_list (map additions (filter (\<lambda>file. \<not> is_test_file (filename file)) files)),
      sum_list (map deletions (filter (\<lambda>file. \<not> is_test_file (filename file)) files)),
      sum_list (map changes (filter (\<lambda>file. \<not> is_test_file (filename file)) files)),
      map entry_of (filter (\<lambda>file. \<not> is_test_file (filename file)) files))"
    using summarize_files_filter [of files False] by simp
  moreover have "summarize_files files True =
     (sum_list (map additions files), sum_list (map deletions files),
      sum_list (map changes files), map entry_of files)"
    using summarize_files_filter [of files True] by simp
  ultimately show ?thesis using scenario_excluding_tests is_test_file_iff [of path] by blast
qed

theorem summarize_drops_test_files_witness:
  "summarize_files
     [\<lparr>filename = ''src/main.go'', additions = 10, deletions = 2, changes = 12\<rparr>,
      \<lparr>filename = ''test/main_test.go'', additions = 5, deletions = 1, changes = 6\<rparr>] True =
   (15, 3, 18,
    [\<lparr>fc_path = ''src/main.go'', fc_additions = 10, fc_deletions = 2, fc_changes = 12,
      fc_net_change = 8, fc_is_config = False\<rparr>,
     \<lparr>fc_path = ''test/main_test.go'', fc_additions = 5, fc_deletions = 1, fc_changes = 6,
      fc_net_change = 4, fc_is_config = False\<rparr>])"
  using summarize_drops_test_files
    [of "[\<lparr>filename = ''src/main.go'', additions = 10, deletions = 2, changes = 12\<rparr>,
          \<lparr>filename = ''test/main_test.go'', additions = 5, deletions = 1, changes = 6\<rparr>]"]
  by (simp add: entry_of_def main_go_not_config main_test_go_not_config)

text \<open>
  Claim C8. The retained list is the input filtered in place: read back as changed files
  (\<open>file_of\<close>), the entries form a subsequence of the input, in the input's order; and
  summarising those retained files again under the same flag returns the same totals and
  the same entries.
\<close>

theorem summarize_stable_idempotent:
  "summarize_files files include_tests = (total_added, total_deleted, total_changes, file_changes)
   \<Longrightarrow> subseq (map file_of file_changes) files
     \<and> summarize_files (map file_of file_changes) include_tests =
         (total_added, total_deleted, total_changes, file_changes)"
proof -
  let ?P = "\<lambda>f. \<not> (\<not> include_tests \<and> is_test_file (filename f))"
  assume "summarize_files files include_tests =
            (total_added, total_deleted, total_changes, file_changes)"
  then have eqs: "total_added = sum_list (map additions (filter ?P files))"
    "total_deleted = sum_list (map deletions (filter ?P files))"
    "total_changes = sum_list (map changes (filter ?P files))"
    "file_changes = map entry_of (filter ?P files)"
    by (simp_all add: summarize_files_filter)
  have kept: "map file_of file_changes = filter ?P files"
    by (simp add: eqs(4) comp_def)
  have "subseq (map file_of file_changes) files"
    unfolding kept by (rule subseq_filter)
  moreover have "summarize_files (map file_of file_changes) include_tests =
         (total_added, total_deleted, total_changes, file_changes)"
  proof -
    have "summarize_files (map file_of file_changes) include_tests =
          summarize_files (filter ?P files) include_tests"
      by (simp only: kept)
    also have "\<dots> = (total_added, total_deleted, total_changes, file_changes)"
      unfolding summarize_files_filter [of "filter ?P files"] by (simp add: eqs)
    finally show ?thesis .
  qed
  ultimately show ?thesis by blast
qed

theorem summarize_stable_idempotent_witness:
  "summarize_files
     [\<lparr>filename = ''src/main.go'', additions = 10, deletions = 2, changes = 12\<rparr>,
      \<lparr>filename = ''test/main_test.go'', additions = 5, deletions = 1, changes = 6\<rparr>] False =
   (10, 2, 12,
    [\<lparr>fc_path = ''src/main.go'', fc_additions = 10, fc_deletions = 2, fc_changes = 12,
      fc_net_change = 8, fc_is_config = False\<rparr>])
   \<and> subseq [\<lparr>filename = ''src/main.go'', additions = 10, deletions = 2, changes = 12\<rparr>]
       [\<lparr>filename = ''src/main.go'', additions = 10, deletions = 2, changes = 12\<rparr>,
        \<lparr>filename = ''test/main_test.go'', additions = 5, deletions = 1, changes = 6\<rparr>]
   \<and> summarize_files
       [\<lparr>filename = ''src/main.go'', additions = 10, deletions = 2, changes = 12\<rparr>] False =
     (10, 2, 12,
      [\<lparr>fc_path = ''src/main.go'', fc_additions = 10, fc_deletions = 2, fc_changes = 12,
        fc_net_change = 8, fc_is_config = False\<rparr>])"
proof -
  note run = scenario_excluding_tests
  show ?thesis using run summarize_stable_idempotent [OF run] by (simp add: file_of_def)
qed

section \<open>Normalising GitLab's changes\<close>

lemma plus_minus_exclusive: "startswith line ''+'' \<Longrightarrow> \<not> startswith line ''-''"
  by (cases line) auto

lemma count_lines_filter:
  "count_lines ls (a, d) =
     (a + int (length (filter (\<lambda>l. startswith l ''+'' \<and> \<not> startswith l ''+++'') ls)),
      d + int (length (filter (\<lambda>l. startswith l ''-'' \<and> \<not> startswith l ''---'') ls)))"
  by (induction ls arbitrary: a d) (auto dest: plus_minus_exclusive)

lemma scenario_lines:
  "splitlines ''+++ b/f\<newline>+foo\<newline>--- a/f\<newline>-bar\<newline>+baz'' =
     [''+++ b/f'', ''+foo'', ''--- a/f'', ''-bar'', ''+baz'']"
  by code_simp

lemma normalize_change_Some:
  "new_path f = Some p \<Longrightarrow>
   \<exists>e. normalize_change f = Inr e \<and> changes e = additions e + deletions e \<and> filename e = p"
  by (simp add: normalize_change_def split: prod.split)

text \<open>The loop over the changes returns, with one changed file per change, each meeting
  the invariant of the data model, when every change has its \<^verbatim>\<open>new_path\<close>.\<close>

lemma gitlab_file_list_ok:
  "\<forall>f\<in>set fs. new_path f \<noteq> None \<Longrightarrow>
   \<exists>out. gitlab_file_list fs acc = Inr (acc @ out) \<and> length out = length fs
     \<and> (\<forall>e\<in>set out. changes e = additions e + deletions e)"
proof (induction fs arbitrary: acc)
  case Nil
  then show ?case by simp
next
  case (Cons f fs)
  then obtain p where p: "new_path f = Some p" by auto
  obtain e where e: "normalize_change f = Inr e" "changes e = additions e + deletions e"
    using normalize_change_Some [OF p] by blast
  from Cons obtain out where "gitlab_file_list fs (acc @ [e]) = Inr ((acc @ [e]) @ out)"
    "length out = length fs" "\<forall>e\<in>set out. changes e = additions e + deletions e"
    by fastforce
  then have "gitlab_file_list (f # fs) acc = Inr (acc @ (e # out))
     \<and> length (e # out) = length (f # fs)
     \<and> (\<forall>x\<in>set (e # out). changes x = additions x + deletions x)"
    using e by simp
  then show ?case by blast
qed

text \<open>
  Claim C3. For every diff text \<open>d\<close> of a GitLab change, the normalised file has as
  additions the number of lines of \<open>d\<close> (as \<^verbatim>\<open>splitlines\<close> cuts them) that begin with
  \<^verbatim>\<open>+\<close> and not with \<^verbatim>\<open>+++\<close>, as deletions the number of lines that begin with \<^verbatim>\<open>-\<close>
  and not with \<^verbatim>\<open>---\<close>, and as changes their sum; the five-line diff of the scenario
  gives 2, 1 and 3.
\<close>

theorem gitlab_diff_counts:
  "normalize_change \<lparr>new_path = Some p, diff = Some d\<rparr> =
     Inr \<lparr>filename = p,
          additions = int (length (filter (\<lambda>l. startswith l ''+'' \<and> \<not> startswith l ''+++'')
                                     (splitlines d))),
          deletions = int (length (filter (\<lambda>l. startswith l ''-'' \<and> \<not> startswith l ''---'')
                                     (splitlines d))),
          changes = int (length (filter (\<lambda>l. startswith l ''+'' \<and> \<not> startswith l ''+++'')
                                   (splitlines d)))
                  + int (length (filter (\<lambda>l. startswith l ''-'' \<and> \<not> startswith l ''---'')
                                   (splitlines d)))\<rparr>
   \<and> normalize_change
       \<lparr>new_path = Some ''f'',
        diff = Some ''+++ b/f\<newline>+foo\<newline>--- a/f\<newline>-bar\<newline>+baz''\<rparr> =
     Inr \<lparr>filename = ''f'', additions = 2, deletions = 1, changes = 3\<rparr>"
  by (simp add: normalize_change_def count_lines_filter scenario_lines)

section \<open>Resolving the URL\<close>

lemma take_four: "4 \<le> length xs \<Longrightarrow> take 4 xs = [xs ! 0, xs ! 1, xs ! 2, xs ! 3]"
proof -
  assume "4 \<le> length xs"
  then obtain a b c d r where "xs = a # b # c # d # r"
    by (auto simp: Suc_le_length_iff eval_nat_numeral)
  then show ?thesis by simp
qed

lemma join_two_or_more: "2 \<le> length xs \<Longrightarrow> join ''/'' xs \<noteq> []"
proof -
  assume "2 \<le> length xs"
  then obtain a b r where "xs = a # b # r"
    by (auto simp: Suc_le_length_iff eval_nat_numeral)
  then show ?thesis by simp
qed

text \<open>The body of \<open>extract_pr_info\<close> once \<^verbatim>\<open>urlparse\<close> has answered, with the local
  variables substituted.\<close>

lemma extract_pr_info_body:
  assumes "urlparse pr_url = Inr parsed"
    and "host = lower (netloc parsed)"
    and "parts = split CHR ''/'' (strip CHR ''/'' (url_path parsed))"
  shows "extract_pr_info urlparse pr_url =
     (if str_contains host ''github.com'' then
        (if length parts < 4 \<or> parts ! (length parts - 2) \<noteq> ''pull''
         then Inl (ValueError ''Invalid GitHub PR URL'')
         else (case take 4 parts of
                 [owner, repo, _, pr_number] \<Rightarrow> Inr (''github'', owner, repo, pr_number)
               | _ \<Rightarrow> Inl (ValueError ''not enough values to unpack'')))
      else if str_contains host ''gitlab.com'' then
        (case index parts ''merge_requests'' of
           None \<Rightarrow> Inl (ValueError ''Invalid GitLab MR URL'')
         | Some mr_idx \<Rightarrow>
             if mr_idx < 2 \<or> mr_idx + 1 \<ge> length parts
             then Inl (ValueError ''Invalid GitLab MR URL'')
             else Inr (''gitlab'',
                       (if int mr_idx - 3 > 0 then join ''/'' (take (mr_idx - 2) parts)
                        else if int mr_idx - 3 \<ge> 0 then parts ! (mr_idx - 3) else []),
                       parts ! (mr_idx - 2), parts ! (mr_idx + 1)))
      else Inl (ValueError ''Unsupported URL: Only GitHub and GitLab are supported.''))"
  unfolding extract_pr_info_def assms by (simp only: Let_def sum.case)

text \<open>The GitHub branch: four segments or more with \<^verbatim>\<open>pull\<close> second to last pass, and the
  first, second and fourth segment are returned.\<close>

lemma extract_github:
  assumes "urlparse pr_url = Inr parsed"
    and "str_contains (lower (netloc parsed)) ''github.com''"
    and "parts = split CHR ''/'' (strip CHR ''/'' (url_path parsed))"
  shows "extract_pr_info urlparse pr_url =
     (if length parts < 4 \<or> parts ! (length parts - 2) \<noteq> ''pull''
      then Inl (ValueError ''Invalid GitHub PR URL'')
      else Inr (''github'', parts ! 0, parts ! 1, parts ! 3))"
proof (cases "length parts < 4")
  case True
  then show ?thesis
    unfolding extract_pr_info_body
      [where urlparse = urlparse and pr_url = pr_url, OF assms(1) refl assms(3)]
    using assms(2) by simp
next
  case False
  then have "take 4 parts = [parts ! 0, parts ! 1, parts ! 2, parts ! 3]"
    by (simp add: take_four)
  with False show ?thesis
    unfolding extract_pr_info_body
      [where urlparse = urlparse and pr_url = pr_url, OF assms(1) refl assms(3)]
    using assms(2) by simp
qed

lemma extract_gitlab:
  assumes "urlparse pr_url = Inr parsed"
    and "\<not> str_contains (lower (netloc parsed)) ''github.com''"
    and "str_contains (lower (netloc parsed)) ''gitlab.com''"
    and "parts = split CHR ''/'' (strip CHR ''/'' (url_path parsed))"
  shows "extract_pr_info urlparse pr_url =
     (case index parts ''merge_requests'' of
        None \<Rightarrow> Inl (ValueError ''Invalid GitLab MR URL'')
      | Some i \<Rightarrow>
          if i < 2 \<or> length parts \<le> i + 1 then Inl (ValueError ''Invalid GitLab MR URL'')
          else Inr (''gitlab'',
                    (if i = 2 then [] else if i = 3 then parts ! 0
                     else join ''/'' (take (i - 2) parts)),
                    parts ! (i - 2), parts ! (i + 1)))"
  unfolding extract_pr_info_body
    [where urlparse = urlparse and pr_url = pr_url, OF assms(1) refl assms(4)]
  using assms(2,3) by (auto split: option.split)

lemma host_GitHub: "str_contains (lower ''GitHub.com'') ''github.com''"
  by code_simp

lemma host_gitlab:
  "str_contains (lower ''gitlab.com'') ''gitlab.com''"
  "\<not> str_contains (lower ''gitlab.com'') ''github.com''"
  by code_simp+

lemma host_both:
  "str_contains (lower ''gitlab.com.github.com'') ''gitlab.com''"
  "str_contains (lower ''gitlab.com.github.com'') ''github.com''"
  by code_simp+

lemma parts_octocat:
  "split CHR ''/'' (strip CHR ''/'' ''/octocat/hello-world/pull/42'') =
     [''octocat'', ''hello-world'', ''pull'', ''42'']"
  by code_simp

lemma parts_group_project:
  "split CHR ''/'' (strip CHR ''/'' ''/group/project/-/merge_requests/7'') =
     [''group'', ''project'', ''-'', ''merge_requests'', ''7'']"
  by code_simp

lemma parts_nested:
  "split CHR ''/'' (strip CHR ''/'' ''/g1/g2/project/-/merge_requests/7'') =
     [''g1'', ''g2'', ''project'', ''-'', ''merge_requests'', ''7'']"
  by code_simp

lemma parts_group_named_mr:
  "split CHR ''/'' (strip CHR ''/'' ''/merge_requests/project/-/merge_requests/7'') =
     [''merge_requests'', ''project'', ''-'', ''merge_requests'', ''7'']"
  by code_simp

text \<open>
  Claim C4. When the lowered network location of the URL contains \<^verbatim>\<open>github.com\<close> and the
  path splits into exactly the four segments owner, repo, \<^verbatim>\<open>pull\<close>, number, the
  resolution returns \<^verbatim>\<open>('github', owner, repo, number)\<close>.
\<close>

theorem github_resolution:
  "urlparse pr_url = Inr parsed \<Longrightarrow>
   str_contains (lower (netloc parsed)) ''github.com'' \<Longrightarrow>
   split CHR ''/'' (strip CHR ''/'' (url_path parsed)) = [owner, repo, ''pull'', pr_number] \<Longrightarrow>
   extract_pr_info urlparse pr_url = Inr (''github'', owner, repo, pr_number)"
proof -
  assume a: "urlparse pr_url = Inr parsed" "str_contains (lower (netloc parsed)) ''github.com''"
    and p: "split CHR ''/'' (strip CHR ''/'' (url_path parsed)) =
              [owner, repo, ''pull'', pr_number]"
  show ?thesis
    unfolding extract_github [where urlparse = urlparse and pr_url = pr_url, OF a p [symmetric]]
    by simp
qed

theorem github_resolution_witness:
  "extract_pr_info
     (parses_to \<lparr>netloc = ''GitHub.com'', url_path = ''/octocat/hello-world/pull/42''\<rparr>)
     ''https://GitHub.com/octocat/hello-world/pull/42'' =
   Inr (''github'', ''octocat'', ''hello-world'', ''42'')"
  using github_resolution
    [of "parses_to \<lparr>netloc = ''GitHub.com'', url_path = ''/octocat/hello-world/pull/42''\<rparr>"
      "''https://GitHub.com/octocat/hello-world/pull/42''"
      "\<lparr>netloc = ''GitHub.com'', url_path = ''/octocat/hello-world/pull/42''\<rparr>"
      "''octocat''" "''hello-world''" "''42''"]
  by (simp add: parses_to_def host_GitHub parts_octocat)

text \<open>
  Claim C5. The claim: a GitHub URL is rejected unless its path has exactly four segments
  with \<^verbatim>\<open>pull\<close> second to last. The guard tests \<^verbatim>\<open>len(path_parts) < 4\<close> and
  \<^verbatim>\<open>path_parts[-2]\<close>, while the unpacking reads \<^verbatim>\<open>path_parts[:4]\<close>: the five-segment path
  \<^verbatim>\<open>/a/b/c/pull/5\<close> passes the guard and \<^verbatim>\<open>pull\<close> itself is returned as the number.
\<close>

theorem github_five_segments_accepted:
  "extract_pr_info (parses_to \<lparr>netloc = ''github.com'', url_path = ''/a/b/c/pull/5''\<rparr>)
     ''https://github.com/a/b/c/pull/5'' = Inr (''github'', ''a'', ''b'', ''pull'')"
  by code_simp

text \<open>
  Claim C6, amended. When the lowered network location contains \<^verbatim>\<open>gitlab.com\<close> and does
  not contain \<^verbatim>\<open>github.com\<close> (the GitHub test comes first), and the path splits into
  group, project, \<^verbatim>\<open>-\<close>, \<^verbatim>\<open>merge_requests\<close>, n with neither group nor project being the
  word \<^verbatim>\<open>merge_requests\<close> (the first occurrence of that word is the one used), the
  resolution returns \<^verbatim>\<open>('gitlab', group, project, n)\<close>; and for the nested path g1, g2,
  project, \<^verbatim>\<open>-\<close>, \<^verbatim>\<open>merge_requests\<close>, n, under the same provisos, it returns the owner
  \<^verbatim>\<open>g1/g2\<close>, the repo project and the number n.
\<close>

theorem gitlab_resolution:
  "urlparse pr_url = Inr parsed \<Longrightarrow>
   str_contains (lower (netloc parsed)) ''gitlab.com'' \<Longrightarrow>
   \<not> str_contains (lower (netloc parsed)) ''github.com'' \<Longrightarrow>
   (split CHR ''/'' (strip CHR ''/'' (url_path parsed)) =
        [grp, project, ''-'', ''merge_requests'', n]
      \<and> grp \<noteq> ''merge_requests'' \<and> project \<noteq> ''merge_requests''
      \<longrightarrow> extract_pr_info urlparse pr_url = Inr (''gitlab'', grp, project, n))
   \<and> (split CHR ''/'' (strip CHR ''/'' (url_path parsed)) =
        [g1, g2, project', ''-'', ''merge_requests'', n']
      \<and> g1 \<noteq> ''merge_requests'' \<and> g2 \<noteq> ''merge_requests'' \<and> project' \<noteq> ''merge_requests''
      \<longrightarrow> extract_pr_info urlparse pr_url = Inr (''gitlab'', g1 @ ''/'' @ g2, project', n'))"
proof -
  assume a: "urlparse pr_url = Inr parsed" "\<not> str_contains (lower (netloc parsed)) ''github.com''"
    "str_contains (lower (netloc parsed)) ''gitlab.com''"
  note body = extract_gitlab [where urlparse = urlparse and pr_url = pr_url, OF a]
  have "extract_pr_info urlparse pr_url = Inr (''gitlab'', grp, project, n)"
    if "split CHR ''/'' (strip CHR ''/'' (url_path parsed)) =
          [grp, project, ''-'', ''merge_requests'', n]"
      and "grp \<noteq> ''merge_requests''" and "project \<noteq> ''merge_requests''"
    unfolding body [OF that(1) [symmetric]] using that(2,3) by simp
  moreover have "extract_pr_info urlparse pr_url = Inr (''gitlab'', g1 @ ''/'' @ g2, project', n')"
    if "split CHR ''/'' (strip CHR ''/'' (url_path parsed)) =
          [g1, g2, project', ''-'', ''merge_requests'', n']"
      and "g1 \<noteq> ''merge_requests''" and "g2 \<noteq> ''merge_requests''"
      and "project' \<noteq> ''merge_requests''"
    unfolding body [OF that(1) [symmetric]] using that(2,3,4) by simp
  ultimately show ?thesis by blast
qed

theorem gitlab_resolution_witness:
  "extract_pr_info
     (parses_to \<lparr>netloc = ''gitlab.com'', url_path = ''/group/project/-/merge_requests/7''\<rparr>)
     ''https://gitlab.com/group/project/-/merge_requests/7'' =
   Inr (''gitlab'', ''group'', ''project'', ''7'')
   \<and> extract_pr_info
     (parses_to \<lparr>netloc = ''gitlab.com'', url_path = ''/g1/g2/project/-/merge_requests/7''\<rparr>)
     ''https://gitlab.com/g1/g2/project/-/merge_requests/7'' =
   Inr (''gitlab'', ''g1/g2'', ''project'', ''7'')"
  using
    gitlab_resolution
      [of "parses_to \<lparr>netloc = ''gitlab.com'', url_path = ''/group/project/-/merge_requests/7''\<rparr>"
        "''https://gitlab.com/group/project/-/merge_requests/7''"
        "\<lparr>netloc = ''gitlab.com'', url_path = ''/group/project/-/merge_requests/7''\<rparr>"
        "''group''" "''project''" "''7''"]
    gitlab_resolution
      [of "parses_to \<lparr>netloc = ''gitlab.com'', url_path = ''/g1/g2/project/-/merge_requests/7''\<rparr>"
        "''https://gitlab.com/g1/g2/project/-/merge_requests/7''"
        "\<lparr>netloc = ''gitlab.com'', url_path = ''/g1/g2/project/-/merge_requests/7''\<rparr>"
        _ _ _ "''g1''" "''g2''" "''project''" "''7''"]
  by (simp add: parses_to_def host_gitlab parts_group_project parts_nested)

text \<open>The claim as first stated fails twice: a network location that contains both
  \<^verbatim>\<open>gitlab.com\<close> and \<^verbatim>\<open>github.com\<close> is taken for GitHub, and a group named
  \<^verbatim>\<open>merge_requests\<close> is taken for the marker.\<close>

theorem gitlab_resolution_counterexample:
  "str_contains (lower ''gitlab.com.github.com'') ''gitlab.com''
   \<and> split CHR ''/'' (strip CHR ''/'' ''/group/project/-/merge_requests/7'') =
       [''group'', ''project'', ''-'', ''merge_requests'', ''7'']
   \<and> extract_pr_info
       (parses_to \<lparr>netloc = ''gitlab.com.github.com'',
                   url_path = ''/group/project/-/merge_requests/7''\<rparr>)
       ''https://gitlab.com.github.com/group/project/-/merge_requests/7'' =
     Inl (ValueError ''Invalid GitHub PR URL'')
   \<and> str_contains (lower ''gitlab.com'') ''gitlab.com''
   \<and> split CHR ''/'' (strip CHR ''/'' ''/merge_requests/project/-/merge_requests/7'') =
       [''merge_requests'', ''project'', ''-'', ''merge_requests'', ''7'']
   \<and> extract_pr_info
       (parses_to \<lparr>netloc = ''gitlab.com'',
                   url_path = ''/merge_requests/project/-/merge_requests/7''\<rparr>)
       ''https://gitlab.com/merge_requests/project/-/merge_requests/7'' =
     Inl (ValueError ''Invalid GitLab MR URL'')"
proof -
  have "extract_pr_info
       (parses_to \<lparr>netloc = ''gitlab.com.github.com'',
                   url_path = ''/group/project/-/merge_requests/7''\<rparr>)
       ''https://gitlab.com.github.com/group/project/-/merge_requests/7'' =
     Inl (ValueError ''Invalid GitHub PR URL'')"
    by (subst extract_github [where parsed = "\<lparr>netloc = ''gitlab.com.github.com'',
                   url_path = ''/group/project/-/merge_requests/7''\<rparr>", OF _ _ refl])
       (simp_all add: parses_to_def host_both parts_group_project)
  moreover have "extract_pr_info
       (parses_to \<lparr>netloc = ''gitlab.com'',
                   url_path = ''/merge_requests/project/-/merge_requests/7''\<rparr>)
       ''https://gitlab.com/merge_requests/project/-/merge_requests/7'' =
     Inl (ValueError ''Invalid GitLab MR URL'')"
    by (subst extract_gitlab [where parsed = "\<lparr>netloc = ''gitlab.com'',
                   url_path = ''/merge_requests/project/-/merge_requests/7''\<rparr>", OF _ _ _ refl])
       (simp_all add: parses_to_def host_gitlab parts_group_named_mr)
  ultimately show ?thesis
    using host_both(1) host_gitlab(1) parts_group_project parts_group_named_mr by blast
qed

lemma resolve_group_project:
  "extract_pr_info
     (parses_to \<lparr>netloc = ''gitlab.com'', url_path = ''/group/project/-/merge_requests/7''\<rparr>)
     ''https://gitlab.com/group/project/-/merge_requests/7'' =
   Inr (''gitlab'', ''group'', ''project'', ''7'')"
  by (subst extract_gitlab [where parsed = "\<lparr>netloc = ''gitlab.com'',
                 url_path = ''/group/project/-/merge_requests/7''\<rparr>", OF _ _ _ refl])
     (simp_all add: parses_to_def host_gitlab parts_group_project)

text \<open>
  Claim C7, amended. A successful resolution returns the platform \<^verbatim>\<open>github\<close> or
  \<^verbatim>\<open>gitlab\<close>, and its repo and number are segments of the URL's path; nothing checks that
  the number is made of digits. So when the path has no empty segment, repo and number
  are non-empty, and the owner is non-empty except for a GitLab URL whose third segment is
  \<^verbatim>\<open>merge_requests\<close>, where the owner is the empty string.
\<close>

theorem resolved_components:
  assumes "urlparse pr_url = Inr parsed"
    and "extract_pr_info urlparse pr_url = Inr (platform, owner, repo, number)"
  shows "(platform = ''github'' \<or> platform = ''gitlab'')
     \<and> repo \<in> set (split CHR ''/'' (strip CHR ''/'' (url_path parsed)))
     \<and> number \<in> set (split CHR ''/'' (strip CHR ''/'' (url_path parsed)))
     \<and> ([] \<notin> set (split CHR ''/'' (strip CHR ''/'' (url_path parsed)))
          \<longrightarrow> repo \<noteq> [] \<and> number \<noteq> []
            \<and> (owner = [] \<longleftrightarrow>
                 platform = ''gitlab''
                 \<and> index (split CHR ''/'' (strip CHR ''/'' (url_path parsed))) ''merge_requests''
                     = Some 2))"
proof -
  define parts where "parts = split CHR ''/'' (strip CHR ''/'' (url_path parsed))"
  have goal: "(platform = ''github'' \<or> platform = ''gitlab'')
     \<and> repo \<in> set parts \<and> number \<in> set parts
     \<and> ([] \<notin> set parts \<longrightarrow> repo \<noteq> [] \<and> number \<noteq> []
            \<and> (owner = [] \<longleftrightarrow>
                 platform = ''gitlab'' \<and> index parts ''merge_requests'' = Some 2))"
  proof (cases "str_contains (lower (netloc parsed)) ''github.com''")
    case True
    note gh = extract_github
      [where urlparse = urlparse and pr_url = pr_url, OF assms(1) True parts_def]
    from assms(2) have len: "4 \<le> length parts"
      unfolding gh by (simp split: if_splits)
    from assms(2) len have res: "platform = ''github''" "owner = parts ! 0" "repo = parts ! 1"
      "number = parts ! 3"
      unfolding gh by (simp_all split: if_splits)
    from len have mem: "owner \<in> set parts" "repo \<in> set parts" "number \<in> set parts"
      unfolding res by (auto intro: nth_mem)
    then show ?thesis using res(1) by auto
  next
    case False
    note not_github = False
    show ?thesis
    proof (cases "str_contains (lower (netloc parsed)) ''gitlab.com''")
      case False
      with not_github assms show ?thesis
        unfolding extract_pr_info_body [where urlparse = urlparse and pr_url = pr_url,
            OF assms(1) refl refl]
        by simp
    next
      case True
      note gl = extract_gitlab [where urlparse = urlparse and pr_url = pr_url,
          OF assms(1) not_github True parts_def]
      from assms(2) obtain i where i: "index parts ''merge_requests'' = Some i"
        unfolding gl by (auto split: option.splits)
      from assms(2) have bounds: "2 \<le> i" "i + 1 < length parts"
        unfolding gl i by (simp_all split: if_splits)
      from assms(2) bounds have res: "platform = ''gitlab''"
        "owner = (if i = 2 then [] else if i = 3 then parts ! 0
                  else join ''/'' (take (i - 2) parts))"
        "repo = parts ! (i - 2)" "number = parts ! (i + 1)"
        unfolding gl i by (simp_all split: if_splits)
      from bounds have mem: "repo \<in> set parts" "number \<in> set parts" "parts ! 0 \<in> set parts"
        unfolding res by (auto intro: nth_mem)
      have "join ''/'' (take (i - 2) parts) \<noteq> []" if "3 < i"
        using that bounds by (intro join_two_or_more) simp
      then have "owner = [] \<longleftrightarrow> i = 2" if "[] \<notin> set parts"
        using that mem(3) bounds unfolding res(2) by (cases "i = 2"; cases "i = 3") auto
      then show ?thesis using mem res(1) i by auto
    qed
  qed
  then show ?thesis unfolding parts_def .
qed

theorem resolved_components_witness:
  "extract_pr_info
     (parses_to \<lparr>netloc = ''gitlab.com'', url_path = ''/group/project/-/merge_requests/7''\<rparr>)
     ''https://gitlab.com/group/project/-/merge_requests/7'' =
   Inr (''gitlab'', ''group'', ''project'', ''7'')
   \<and> [] \<notin> set (split CHR ''/'' (strip CHR ''/'' ''/group/project/-/merge_requests/7''))
   \<and> ''project'' \<in> set (split CHR ''/'' (strip CHR ''/'' ''/group/project/-/merge_requests/7''))
   \<and> ''7'' \<in> set (split CHR ''/'' (strip CHR ''/'' ''/group/project/-/merge_requests/7''))
   \<and> index (split CHR ''/'' (strip CHR ''/'' ''/group/project/-/merge_requests/7''))
        ''merge_requests'' \<noteq> Some 2"
proof -
  note run = resolve_group_project
  have parsed:
    "parses_to \<lparr>netloc = ''gitlab.com'', url_path = ''/group/project/-/merge_requests/7''\<rparr>
       ''https://gitlab.com/group/project/-/merge_requests/7'' =
     Inr \<lparr>netloc = ''gitlab.com'', url_path = ''/group/project/-/merge_requests/7''\<rparr>"
    by (simp add: parses_to_def)
  show ?thesis
    using run resolved_components [OF parsed run] by (simp add: parts_group_project)
qed

text \<open>The invariant as first stated fails: a number that is no digit string, an empty
  owner and an empty repo are all returned.\<close>

theorem resolved_invariant_counterexample:
  "extract_pr_info (parses_to \<lparr>netloc = ''github.com'', url_path = ''/a/b/pull/abc''\<rparr>)
     ''https://github.com/a/b/pull/abc'' = Inr (''github'', ''a'', ''b'', ''abc'')
   \<and> \<not> isdigit ''abc''
   \<and> extract_pr_info
       (parses_to \<lparr>netloc = ''gitlab.com'', url_path = ''/project/-/merge_requests/7''\<rparr>)
       ''https://gitlab.com/project/-/merge_requests/7'' = Inr (''gitlab'', [], ''project'', ''7'')
   \<and> extract_pr_info (parses_to \<lparr>netloc = ''github.com'', url_path = ''/a//pull/1''\<rparr>)
       ''https://github.com/a//pull/1'' = Inr (''github'', ''a'', [], ''1'')"
  by code_simp

section \<open>The path column\<close>

lemma ljust_short: "length s \<le> 60 \<Longrightarrow> ljust s 60 = s @ replicate (60 - length s) CHR '' ''"
proof -
  assume "length s \<le> 60"
  then have "nat (60 - int (length s)) = 60 - length s" by simp
  then show ?thesis by (simp add: ljust_def)
qed

lemma truncate_middle_short:
  "length p \<le> 60 \<Longrightarrow> truncate_middle p 60 = p @ replicate (60 - length p) CHR '' ''"
  by (simp add: truncate_middle_def ljust_short)

lemma truncate_middle_long:
  "60 < length p \<Longrightarrow>
   truncate_middle p 60 = take 28 p @ ''...'' @ drop (length p - 28) p @ '' ''"
proof -
  assume long: "60 < length p"
  have "slice_to p 28 = take 28 p" by (simp add: slice_to_def)
  moreover have "slice_from p (- 28) = drop (length p - 28) p"
  proof -
    from long have "nat (int (length p) + - 28) = length p - 28" by simp
    then show ?thesis by (simp add: slice_from_def)
  qed
  moreover have "ljust (take 28 p @ ''...'' @ drop (length p - 28) p) 60 =
      take 28 p @ ''...'' @ drop (length p - 28) p @ '' ''"
  proof -
    from long have "length (take 28 p @ ''...'' @ drop (length p - 28) p) = 59" by simp
    then show ?thesis by (simp add: ljust_def)
  qed
  ultimately show ?thesis using long by (simp add: truncate_middle_def Let_def)
qed

text \<open>
  Claim C9, amended. With \<^verbatim>\<open>--truncate-paths\<close>, the path field of a path of at most 60
  characters is the path left-justified in width 60, that is the path followed by spaces
  (\<^verbatim>\<open>ljust\<close> pads on the right, not on the left), and so is what \<open>truncate_middle\<close> returns:
  no ellipsis is inserted.
\<close>

theorem short_path_field:
  "length p \<le> 60 \<Longrightarrow>
   path_field True p = p @ replicate (60 - length p) CHR '' ''
   \<and> truncate_middle p 60 = p @ replicate (60 - length p) CHR '' ''"
proof -
  assume short: "length p \<le> 60"
  have "ljust (p @ replicate (60 - length p) CHR '' '') 60 =
        p @ replicate (60 - length p) CHR '' ''"
    using short by (simp add: ljust_def)
  then show ?thesis using short by (simp add: path_field_def truncate_middle_short)
qed

theorem short_path_field_witness:
  "length ''src/main.go'' \<le> 60
   \<and> path_field True ''src/main.go'' =
       ''src/main.go                                                 ''"
  using short_path_field [of "''src/main.go''"] by (simp add: numeral_eq_Suc)

text \<open>Read as padding on the left, the claim fails: the spaces follow the path.\<close>

theorem short_path_field_counterexample:
  "length ''src/main.go'' \<le> 60
   \<and> path_field True ''src/main.go'' \<noteq>
       replicate (60 - length ''src/main.go'') CHR '' '' @ ''src/main.go''"
  by code_simp

text \<open>
  Claim C10. With the default \<^verbatim>\<open>max_length\<close> of 60, \<open>truncate_middle\<close> returns exactly 60
  characters for every path: a path of at most 60 characters followed by spaces, and for a
  longer path its first 28 characters, \<^verbatim>\<open>...\<close>, its last 28 characters and one space.
\<close>

theorem truncate_middle_width:
  "length (truncate_middle p 60) = 60
   \<and> (length p \<le> 60 \<longrightarrow> truncate_middle p 60 = p @ replicate (60 - length p) CHR '' '')
   \<and> (60 < length p \<longrightarrow>
        truncate_middle p 60 = take 28 p @ ''...'' @ drop (length p - 28) p @ '' ''
        \<and> length (take 28 p) = 28 \<and> length (drop (length p - 28) p) = 28)"
proof (cases "length p \<le> 60")
  case True
  then show ?thesis by (simp add: truncate_middle_short)
next
  case False
  then show ?thesis by (simp add: truncate_middle_long)
qed

theorem truncate_middle_width_witness:
  "truncate_middle ''src/main.go'' 60 =
     ''src/main.go                                                 ''
   \<and> truncate_middle
       ''src/main/java/com/example/project/module/submodule/VeryLongFileNameImpl.java'' 60 =
     ''src/main/java/com/example/pr...le/VeryLongFileNameImpl.java ''"
  using truncate_middle_width [of "''src/main.go''"]
    truncate_middle_width
      [of "''src/main/java/com/example/project/module/submodule/VeryLongFileNameImpl.java''"]
  by (simp add: numeral_eq_Suc)

end
